theory Spec2Isabelle
  imports Complex_Main
begin

section \<open>MiniVenmo: data model\<close>

text \<open>
  The program (\<^verbatim>\<open>src/minivenmo.py\<close>) has three classes: \<^verbatim>\<open>CreditCard\<close>, \<^verbatim>\<open>User\<close> and
  \<^verbatim>\<open>MiniVenmo\<close>. Their instances are mutable objects that refer to each other, and the
  code compares users by identity (no class defines \<^verbatim>\<open>__eq__\<close>), so objects live in a
  heap and are named by references. Every Python reference points to an object, hence the
  heap is a total function from references to objects; the two counters say how many
  objects of each class have been constructed so far.

  Amounts are exact rationals: \<^verbatim>\<open>+\<close>, \<^verbatim>\<open>-\<close>, \<^verbatim>\<open>>=\<close> and \<^verbatim>\<open><=\<close> are exact, as Python's are on
  \<^verbatim>\<open>int\<close> and \<^verbatim>\<open>Fraction\<close> values. Every finite binary floating-point value is a rational
  too, but the rounding of floating-point sums and differences, the infinities and NaN
  are outside this model.
\<close>

type_synonym ref = nat

record CreditCard =
  balance :: rat

record User =
  name :: string
  balance :: rat
  credit_card :: "ref option"
  friends :: "ref list"
  activity_log :: "string list"

record MiniVenmo =
  users :: "ref list"

record heap =
  user_at :: "ref \<Rightarrow> User"
  card_at :: "ref \<Rightarrow> CreditCard"
  user_count :: nat
  card_count :: nat

definition upd_user :: "ref \<Rightarrow> (User \<Rightarrow> User) \<Rightarrow> heap \<Rightarrow> heap" where
  "upd_user r f h = h\<lparr>user_at := (user_at h)(r := f (user_at h r))\<rparr>"

definition upd_card :: "ref \<Rightarrow> (CreditCard \<Rightarrow> CreditCard) \<Rightarrow> heap \<Rightarrow> heap" where
  "upd_card r f h = h\<lparr>card_at := (card_at h)(r := f (card_at h r))\<rparr>"

section \<open>Formatting an amount with two decimals\<close>

text \<open>
  The format specification \<^verbatim>\<open>:.2f\<close> prints the sign, the integer part, a point and exactly
  two decimals, the value rounded to the nearest hundredth with ties going to the even
  neighbour. This is what Python prints for a \<^verbatim>\<open>Fraction\<close>, for a finite \<^verbatim>\<open>float\<close> (whose
  value is rounded exactly) and for an \<^verbatim>\<open>int\<close> below \<open>2^53\<close>; a larger \<^verbatim>\<open>int\<close> is converted to
  \<^verbatim>\<open>float\<close> before it is printed, which is outside this model.
\<close>

definition digit_char :: "nat \<Rightarrow> char" where
  "digit_char d = ''0123456789'' ! (d mod 10)"

fun show_nat :: "nat \<Rightarrow> string" where
  "show_nat n =
     (if n < 10 then [digit_char n] else show_nat (n div 10) @ [digit_char (n mod 10)])"

definition round_half_even :: "rat \<Rightarrow> int" where
  "round_half_even y =
     (let f = \<lfloor>y\<rfloor>; r = y - of_int f
      in if r < 1 / 2 then f else if 1 / 2 < r then f + 1 else if even f then f else f + 1)"

definition fmt2 :: "rat \<Rightarrow> string" where
  "fmt2 x =
     (let n = nat (round_half_even (\<bar>x\<bar> * 100))
      in (if x < 0 then ''-'' else '''') @ show_nat (n div 100) @ ''.'' @
         [digit_char (n mod 100 div 10), digit_char (n mod 10)])"

section \<open>CreditCard\<close>

text \<open>
  \<^verbatim>\<open>CreditCard.charge\<close> on the object itself: the result and the object after the call.
\<close>

definition charge :: "CreditCard \<Rightarrow> rat \<Rightarrow> bool \<times> CreditCard" where
  "charge self amount =
     (if CreditCard.balance self \<ge> amount
      then (True, self\<lparr>CreditCard.balance := CreditCard.balance self - amount\<rparr>)
      else (False, self))"

text \<open>The same call through a reference to a card in the heap.\<close>

definition charge_at :: "ref \<Rightarrow> rat \<Rightarrow> heap \<Rightarrow> bool \<times> heap" where
  "charge_at c amount h =
     (case charge (card_at h c) amount of (ok, cc) \<Rightarrow> (ok, upd_card c (\<lambda>_. cc) h))"

section \<open>User\<close>

text \<open>\<^verbatim>\<open>User.__init__\<close>: no card, no friends, an empty log.\<close>

definition User_init :: "string \<Rightarrow> rat \<Rightarrow> User" where
  "User_init nm bal =
     \<lparr>name = nm, balance = bal, credit_card = None, friends = [], activity_log = []\<rparr>"

definition assign_credit_card :: "ref \<Rightarrow> ref \<Rightarrow> heap \<Rightarrow> heap" where
  "assign_credit_card self cc h = upd_user self (\<lambda>u. u\<lparr>credit_card := Some cc\<rparr>) h"

text \<open>\<^verbatim>\<open>user.activity_log.append(entry)\<close>\<close>

definition log_append :: "ref \<Rightarrow> string \<Rightarrow> heap \<Rightarrow> heap" where
  "log_append r entry h = upd_user r (\<lambda>u. u\<lparr>activity_log := activity_log u @ [entry]\<rparr>) h"

text \<open>
  \<^verbatim>\<open>User.add_friend\<close>. The two guards compare references; the four statements after them
  run in the source's order, each on the heap the previous one left.
\<close>

definition add_friend :: "ref \<Rightarrow> ref \<Rightarrow> heap \<Rightarrow> bool \<times> heap" where
  "add_friend self friend h =
     (if friend = self then (False, h)
      else if friend \<in> set (friends (user_at h self)) then (False, h)
      else
        (let h1 = upd_user self (\<lambda>u. u\<lparr>friends := friends u @ [friend]\<rparr>) h;
             h2 = upd_user friend (\<lambda>u. u\<lparr>friends := friends u @ [self]\<rparr>) h1;
             h3 = log_append self
                    (name (user_at h2 self) @ '' and '' @ name (user_at h2 friend) @
                     '' are now friends'') h2;
             h4 = log_append friend
                    (name (user_at h3 friend) @ '' and '' @ name (user_at h3 self) @
                     '' are now friends'') h3
         in (True, h4)))"

text \<open>
  \<^verbatim>\<open>User.pay\<close>. The credit-card branch reads the card's balance and subtracts from it
  directly; it does not call \<^verbatim>\<open>charge\<close>. A card object is always truthy, so the test
  \<^verbatim>\<open>self.credit_card and ...\<close> is the test that a card is assigned.
\<close>

definition pay :: "ref \<Rightarrow> ref \<Rightarrow> rat \<Rightarrow> string \<Rightarrow> heap \<Rightarrow> bool \<times> heap" where
  "pay self recipient amount description h =
     (if recipient = self then (False, h)
      else if amount \<le> 0 then (False, h)
      else if User.balance (user_at h self) \<ge> amount then
        (let h1 = upd_user self (\<lambda>u. u\<lparr>User.balance := User.balance u - amount\<rparr>) h;
             h2 = upd_user recipient (\<lambda>u. u\<lparr>User.balance := User.balance u + amount\<rparr>) h1;
             h3 = log_append self
                    (name (user_at h2 self) @ '' paid '' @ name (user_at h2 recipient) @
                     '' $'' @ fmt2 amount @ '' for '' @ description) h2;
             h4 = log_append recipient
                    (name (user_at h3 self) @ '' paid '' @ name (user_at h3 recipient) @
                     '' $'' @ fmt2 amount @ '' for '' @ description) h3
         in (True, h4))
      else
        (case credit_card (user_at h self) of
           None \<Rightarrow> (False, h)
         | Some c \<Rightarrow>
             if CreditCard.balance (card_at h c) \<ge> amount then
               (let h1 = upd_card c
                           (\<lambda>k. k\<lparr>CreditCard.balance := CreditCard.balance k - amount\<rparr>) h;
                    h2 = upd_user recipient
                           (\<lambda>u. u\<lparr>User.balance := User.balance u + amount\<rparr>) h1;
                    h3 = log_append self
                           (''Paid '' @ name (user_at h2 recipient) @ '' $'' @ fmt2 amount @
                            '' for '' @ description @ '' (credit card)'') h2;
                    h4 = log_append recipient
                           (name (user_at h3 self) @ '' paid '' @ name (user_at h3 recipient) @
                            '' $'' @ fmt2 amount @ '' for '' @ description) h3
                in (True, h4))
             else (False, h)))"

definition retrieve_activity :: "ref \<Rightarrow> heap \<Rightarrow> string list" where
  "retrieve_activity self h = activity_log (user_at h self)"

section \<open>MiniVenmo\<close>

text \<open>Constructing an object takes the next free reference of its class.\<close>

definition new_card :: "rat \<Rightarrow> heap \<Rightarrow> ref \<times> heap" where
  "new_card bal h =
     (card_count h,
      h\<lparr>card_at := (card_at h)(card_count h := \<lparr>CreditCard.balance = bal\<rparr>),
        card_count := Suc (card_count h)\<rparr>)"

definition new_user :: "string \<Rightarrow> rat \<Rightarrow> heap \<Rightarrow> ref \<times> heap" where
  "new_user nm bal h =
     (user_count h,
      h\<lparr>user_at := (user_at h)(user_count h := User_init nm bal),
        user_count := Suc (user_count h)\<rparr>)"

definition MiniVenmo_init :: MiniVenmo where
  "MiniVenmo_init = \<lparr>users = []\<rparr>"

definition create_user :: "MiniVenmo \<Rightarrow> string \<Rightarrow> rat \<Rightarrow> heap \<Rightarrow> ref \<times> MiniVenmo \<times> heap" where
  "create_user self nm bal h =
     (case new_user nm bal h of
        (r, h') \<Rightarrow> (r, self\<lparr>users := users self @ [r]\<rparr>, h'))"

text \<open>\<^verbatim>\<open>MiniVenmo.render_feed\<close>: the two nested loops, the feed being the accumulator.\<close>

definition render_feed :: "MiniVenmo \<Rightarrow> heap \<Rightarrow> string list" where
  "render_feed self h =
     foldl (\<lambda>feed user.
              foldl (\<lambda>feed entry. if entry \<notin> set feed then feed @ [entry] else feed)
                feed (retrieve_activity user h))
       [] (users self)"

text \<open>
  What the specification says the feed is: the logs of the accounts one after the other,
  in the order of creation, each entry kept only where it occurs for the first time.
\<close>

fun first_occurrences :: "'a list \<Rightarrow> 'a list" where
  "first_occurrences [] = []"
| "first_occurrences (x # xs) = x # first_occurrences (filter (\<lambda>y. y \<noteq> x) xs)"

definition feed_spec :: "MiniVenmo \<Rightarrow> heap \<Rightarrow> string list" where
  "feed_spec self h = first_occurrences (concat (map (\<lambda>u. activity_log (user_at h u)) (users self)))"

section \<open>Sequences of calls\<close>

text \<open>
  A client holds one \<^verbatim>\<open>MiniVenmo\<close> object and calls the public operations in any order.
  A call can only name objects that exist, so a step is defined where its references are
  below the counters, and is \<open>None\<close> elsewhere.
\<close>

datatype call =
    CreateUser string rat
  | NewCreditCard rat
  | AssignCreditCard ref ref
  | AddFriend ref ref
  | Pay ref ref rat string
  | Charge ref rat
  | RetrieveActivity ref
  | RenderFeed

definition empty_heap :: heap where
  "empty_heap =
     \<lparr>user_at = (\<lambda>_. User_init [] 0), card_at = (\<lambda>_. \<lparr>CreditCard.balance = 0\<rparr>),
      user_count = 0, card_count = 0\<rparr>"

fun step :: "call \<Rightarrow> MiniVenmo \<times> heap \<Rightarrow> (MiniVenmo \<times> heap) option" where
  "step (CreateUser n b) (app, h) =
     (case create_user app n b h of (r, app', h') \<Rightarrow> Some (app', h'))"
| "step (NewCreditCard b) (app, h) = Some (app, snd (new_card b h))"
| "step (AssignCreditCard a c) (app, h) =
     (if a < user_count h \<and> c < card_count h then Some (app, assign_credit_card a c h)
      else None)"
| "step (AddFriend a b) (app, h) =
     (if a < user_count h \<and> b < user_count h then Some (app, snd (add_friend a b h))
      else None)"
| "step (Pay a b m d) (app, h) =
     (if a < user_count h \<and> b < user_count h then Some (app, snd (pay a b m d h)) else None)"
| "step (Charge c m) (app, h) =
     (if c < card_count h then Some (app, snd (charge_at c m h)) else None)"
| "step (RetrieveActivity a) (app, h) = (if a < user_count h then Some (app, h) else None)"
| "step RenderFeed (app, h) = Some (app, h)"

fun run :: "call list \<Rightarrow> MiniVenmo \<times> heap \<Rightarrow> (MiniVenmo \<times> heap) option" where
  "run [] w = Some w"
| "run (c # cs) w = (case step c w of None \<Rightarrow> None | Some w' \<Rightarrow> run cs w')"

text \<open>The friends relation over the accounts of the application.\<close>

definition friends_symmetric :: "MiniVenmo \<Rightarrow> heap \<Rightarrow> bool" where
  "friends_symmetric app h \<longleftrightarrow>
     (\<forall>a \<in> set (users app). \<forall>b \<in> set (users app).
        a \<in> set (friends (user_at h b)) \<longleftrightarrow> b \<in> set (friends (user_at h a)))"

definition friends_irreflexive :: "MiniVenmo \<Rightarrow> heap \<Rightarrow> bool" where
  "friends_irreflexive app h \<longleftrightarrow>
     (\<forall>a \<in> set (users app). a \<notin> set (friends (user_at h a)))"

definition friends_duplicate_free :: "MiniVenmo \<Rightarrow> heap \<Rightarrow> bool" where
  "friends_duplicate_free app h \<longleftrightarrow>
     (\<forall>a \<in> set (users app). distinct (friends (user_at h a)))"

section \<open>Auxiliary notions for stating the properties\<close>



text \<open>
  The heap of the test-suite's \<^verbatim>\<open>setUp\<close>: Alice (reference 0) with balance \<open>a\<close> and a
  card (reference 0) of balance \<open>c\<close>, Bob (reference 1) with balance 20 and no card.
\<close>

definition test_heap :: "rat \<Rightarrow> rat \<Rightarrow> heap" where
  "test_heap a c =
     \<lparr>user_at = (\<lambda>_. User_init [] 0)
        (0 := (User_init ''Alice'' a)\<lparr>credit_card := Some 0\<rparr>, 1 := User_init ''Bob'' 20),
      card_at = (\<lambda>_. \<lparr>CreditCard.balance = 0\<rparr>)(0 := \<lparr>CreditCard.balance = c\<rparr>),
      user_count = 2, card_count = 1\<rparr>"

text \<open>
  The application object of the test-suite's \<^verbatim>\<open>setUp\<close>, holding Alice and Bob.
\<close>

definition test_app :: MiniVenmo where
  "test_app = \<lparr>users = [0, 1]\<rparr>"

text \<open>The calls of the source's \<^verbatim>\<open>main()\<close>, in its order.\<close>

definition demo :: "call list" where
  "demo =
     [CreateUser ''Alice'' 100, CreateUser ''Bob'' 50, CreateUser ''Charlie'' 0,
      NewCreditCard 200, AssignCreditCard 0 0, NewCreditCard 100, AssignCreditCard 2 1,
      AddFriend 0 1, AddFriend 1 2,
      Pay 0 1 25 ''lunch'', Pay 1 2 10 ''movie ticket'', Pay 2 0 5 ''snack'',
      Pay 0 0 10 ''self-payment'', Pay 2 0 50 ''gift'', RenderFeed]"

text \<open>
  The invariant that carries the three properties of the friends relation through a
  sequence of calls: the accounts of the application are exactly the users constructed
  so far, and every friend of such a user is such a user, has the user as a friend, is
  not the user itself and is listed once.
\<close>

definition wf_friends :: "MiniVenmo \<times> heap \<Rightarrow> bool" where
  "wf_friends w \<longleftrightarrow>
     (case w of (app, h) \<Rightarrow>
        set (users app) = {..<user_count h} \<and>
        (\<forall>a<user_count h.
           (\<forall>b \<in> set (friends (user_at h a)). b < user_count h \<and> a \<in> set (friends (user_at h b)))
           \<and> a \<notin> set (friends (user_at h a))
           \<and> distinct (friends (user_at h a))))"

section \<open>Properties of CreditCard.charge\<close>

text \<open>
  C4. A charge is all or nothing. When the balance covers the amount the call returns
  true and the balance becomes the old balance minus the amount; otherwise it returns
  false and the card is exactly as before. Hence a charge never makes the balance
  negative: a negative balance after the call was negative before it.
\<close>

theorem charge_all_or_nothing:
  "charge cc a =
     (if CreditCard.balance cc \<ge> a
      then (True, cc\<lparr>CreditCard.balance := CreditCard.balance cc - a\<rparr>)
      else (False, cc))
   \<and> (CreditCard.balance (snd (charge cc a)) < 0 \<longrightarrow> CreditCard.balance cc < 0)"
  by (simp add: charge_def)

theorem charge_all_or_nothing_witness:
  "CreditCard.balance (snd (charge \<lparr>CreditCard.balance = - 3\<rparr> 5)) < 0
   \<and> charge \<lparr>CreditCard.balance = - 3\<rparr> 5 = (False, \<lparr>CreditCard.balance = - 3\<rparr>)
   \<and> charge \<lparr>CreditCard.balance = 100\<rparr> 20 = (True, \<lparr>CreditCard.balance = 80\<rparr>)"
  using charge_all_or_nothing [of "\<lparr>CreditCard.balance = - 3\<rparr>" 5]
    charge_all_or_nothing [of "\<lparr>CreditCard.balance = 100\<rparr>" 20]
  by simp



section \<open>Properties of the formatting\<close>

lemma floor_numeral_div_rat: "\<lfloor>numeral a / numeral b :: rat\<rfloor> = numeral a div numeral b"
  using floor_divide_of_int_eq [of "numeral a" "numeral b", where ?'a = rat] by simp

lemma fmt2_examples:
  "fmt2 5 = ''5.00'' \<and> fmt2 4500 = ''4500.00'' \<and> fmt2 (1 / 8) = ''0.12''
   \<and> fmt2 (3 / 8) = ''0.38'' \<and> fmt2 (1999 / 1000) = ''2.00'' \<and> fmt2 (1 / 3) = ''0.33''"
  by (simp add: fmt2_def round_half_even_def digit_char_def floor_numeral_div_rat Let_def)




section \<open>Properties of User.pay\<close>







text \<open>
  C8. In the credit-card branch of \<open>pay\<close> (balance of \<open>A\<close> below the amount, a card
  assigned, the card's balance covering the amount) a call of \<open>charge\<close> on the card with
  that amount returns true: its failure branch cannot be taken there. The subtraction
  that \<open>pay\<close> performs on the card leaves the cards exactly as that call would, and the
  whole payment is that call followed by the credit of the recipient and the two log
  entries.
\<close>

theorem credit_branch_charge_succeeds:
  assumes "B \<noteq> A" and "0 < m" and "User.balance (user_at h A) < m"
    and "credit_card (user_at h A) = Some c" and "m \<le> CreditCard.balance (card_at h c)"
  shows "fst (charge (card_at h c) m)
    \<and> fst (charge_at c m h)
    \<and> card_at (snd (pay A B m d h)) = card_at (snd (charge_at c m h))
    \<and> card_at (snd (pay A B m d h)) c = snd (charge (card_at h c) m)
    \<and> snd (pay A B m d h) =
        log_append B (name (user_at h A) @ '' paid '' @ name (user_at h B) @ '' $'' @ fmt2 m @
                      '' for '' @ d)
          (log_append A (''Paid '' @ name (user_at h B) @ '' $'' @ fmt2 m @ '' for '' @ d @
                         '' (credit card)'')
             (upd_user B (\<lambda>u. u\<lparr>User.balance := User.balance u + m\<rparr>) (snd (charge_at c m h))))"
  using assms
  by (simp add: pay_def charge_def charge_at_def upd_user_def upd_card_def log_append_def Let_def)

theorem credit_branch_charge_succeeds_witness:
  "(1::ref) \<noteq> 0 \<and> (0::rat) < 20 \<and> User.balance (user_at (test_heap 0 20) 0) < 20
   \<and> credit_card (user_at (test_heap 0 20) 0) = Some 0
   \<and> 20 \<le> CreditCard.balance (card_at (test_heap 0 20) 0)
   \<and> fst (charge (card_at (test_heap 0 20) 0) 20)
   \<and> card_at (snd (pay 0 1 20 ''Exact Credit'' (test_heap 0 20))) 0 = \<lparr>CreditCard.balance = 0\<rparr>"
proof -
  have hyps: "(1::ref) \<noteq> 0" "(0::rat) < 20" "User.balance (user_at (test_heap 0 20) 0) < 20"
    "credit_card (user_at (test_heap 0 20) 0) = Some 0"
    "20 \<le> CreditCard.balance (card_at (test_heap 0 20) 0)"
    by (simp_all add: test_heap_def User_init_def)
  note concl = credit_branch_charge_succeeds [OF hyps, of "''Exact Credit''"]
  have "card_at (snd (pay 0 1 20 ''Exact Credit'' (test_heap 0 20))) 0
      = snd (charge (card_at (test_heap 0 20) 0) 20)"
    using concl by blast
  then show ?thesis
    using hyps concl by (simp add: test_heap_def User_init_def charge_def)
qed

section \<open>Properties of \<^verbatim>\<open>User.add_friend\<close>\<close>

text \<open>
  C5. \<open>A.add_friend(B)\<close> returns false and leaves the heap as it is when \<open>B\<close> is \<open>A\<close>
  itself or is already in the friends of \<open>A\<close>. Otherwise it returns true, appends \<open>B\<close> to
  the friends of \<open>A\<close> and \<open>A\<close> to the friends of \<open>B\<close>, appends the one entry
  \<open><A> and <B> are now friends\<close> to the log of \<open>A\<close> and the one entry
  \<open><B> and <A> are now friends\<close> to the log of \<open>B\<close>. In both cases no balance, no
  assigned card and no card balance changes.
\<close>

theorem add_friend_behaviour:
  "(if B = A \<or> B \<in> set (friends (user_at h A)) then add_friend A B h = (False, h)
    else fst (add_friend A B h)
      \<and> friends (user_at (snd (add_friend A B h)) A) = friends (user_at h A) @ [B]
      \<and> friends (user_at (snd (add_friend A B h)) B) = friends (user_at h B) @ [A]
      \<and> activity_log (user_at (snd (add_friend A B h)) A) = activity_log (user_at h A) @
          [name (user_at h A) @ '' and '' @ name (user_at h B) @ '' are now friends'']
      \<and> activity_log (user_at (snd (add_friend A B h)) B) = activity_log (user_at h B) @
          [name (user_at h B) @ '' and '' @ name (user_at h A) @ '' are now friends''])
   \<and> (\<forall>u. User.balance (user_at (snd (add_friend A B h)) u) = User.balance (user_at h u)
          \<and> credit_card (user_at (snd (add_friend A B h)) u) = credit_card (user_at h u))
   \<and> card_at (snd (add_friend A B h)) = card_at h"
  by (simp add: add_friend_def upd_user_def log_append_def Let_def)

theorem add_friend_behaviour_witness:
  "fst (add_friend 0 1 (test_heap 50 100))
   \<and> friends (user_at (snd (add_friend 0 1 (test_heap 50 100))) 0) = [1]
   \<and> friends (user_at (snd (add_friend 0 1 (test_heap 50 100))) 1) = [0]
   \<and> activity_log (user_at (snd (add_friend 0 1 (test_heap 50 100))) 0)
       = [''Alice and Bob are now friends'']
   \<and> activity_log (user_at (snd (add_friend 0 1 (test_heap 50 100))) 1)
       = [''Bob and Alice are now friends'']
   \<and> add_friend 0 0 (test_heap 50 100) = (False, test_heap 50 100)
   \<and> add_friend 0 1 (snd (add_friend 0 1 (test_heap 50 100)))
       = (False, snd (add_friend 0 1 (test_heap 50 100)))"
  using add_friend_behaviour [of 1 0 "test_heap 50 100"]
    add_friend_behaviour [of 0 0 "test_heap 50 100"]
    add_friend_behaviour [of 1 0 "snd (add_friend 0 1 (test_heap 50 100))"]
  by (simp add: test_heap_def User_init_def)

section \<open>Properties of \<^verbatim>\<open>MiniVenmo.render_feed\<close>\<close>

lemma dedup_step:
  "foldl (\<lambda>feed entry. if entry \<notin> set feed then feed @ [entry] else feed) acc xs
     = acc @ first_occurrences (filter (\<lambda>y. y \<notin> set acc) xs)"
proof (induction xs arbitrary: acc)
  case Nil
  then show ?case by simp
next
  case (Cons x xs)
  have f: "filter (\<lambda>y. y \<noteq> x) (filter (\<lambda>y. y \<notin> set acc) xs)
      = filter (\<lambda>y. y \<notin> set (acc @ [x])) xs"
    by (induction xs) auto
  show ?case
  proof (cases "x \<in> set acc")
    case True
    then show ?thesis using Cons.IH [of acc] by simp
  next
    case False
    then show ?thesis using Cons.IH [of "acc @ [x]"] f by simp
  qed
qed

lemma dedup_users:
  "foldl (\<lambda>feed user.
            foldl (\<lambda>feed entry. if entry \<notin> set feed then feed @ [entry] else feed)
              feed (retrieve_activity user h))
     acc us
   = foldl (\<lambda>feed entry. if entry \<notin> set feed then feed @ [entry] else feed) acc
       (concat (map (\<lambda>u. activity_log (user_at h u)) us))"
  by (induction us arbitrary: acc) (simp_all add: retrieve_activity_def)

lemma render_feed_eq_spec: "render_feed app h = feed_spec app h"
  unfolding render_feed_def feed_spec_def dedup_users
  by (simp add: dedup_step)

lemma set_first_occurrences: "set (first_occurrences xs) = set xs"
  by (induction xs rule: first_occurrences.induct) auto

lemma distinct_first_occurrences: "distinct (first_occurrences xs)"
  by (induction xs rule: first_occurrences.induct) (auto simp: set_first_occurrences)

lemma count_first_occurrences:
  "count_list (first_occurrences xs) x = (if x \<in> set xs then 1 else 0)"
  by (induction xs rule: first_occurrences.induct) auto

lemma card_entry_differs:
  "''Paid '' @ nb @ '' $'' @ f @ '' for '' @ d @ '' (credit card)''
     \<noteq> na @ '' paid '' @ nb @ '' $'' @ f @ '' for '' @ d"
proof
  assume "''Paid '' @ nb @ '' $'' @ f @ '' for '' @ d @ '' (credit card)''
     = na @ '' paid '' @ nb @ '' $'' @ f @ '' for '' @ d"
  then have "count_list (''Paid '' @ nb @ '' $'' @ f @ '' for '' @ d @ '' (credit card)'') CHR ''p''
     = count_list (na @ '' paid '' @ nb @ '' $'' @ f @ '' for '' @ d) CHR ''p''"
    by (rule arg_cong)
  then show False by simp
qed

lemma pay_cash_logs:
  assumes "B \<noteq> A" and "0 < m" and "m \<le> User.balance (user_at h A)"
  shows "activity_log (user_at (snd (pay A B m d h)) u) =
     activity_log (user_at h u) @
       (if u = A \<or> u = B
        then [name (user_at h A) @ '' paid '' @ name (user_at h B) @ '' $'' @ fmt2 m @ '' for '' @ d]
        else [])"
  using assms by (simp add: pay_def upd_user_def log_append_def Let_def)

lemma pay_credit_logs:
  assumes "B \<noteq> A" and "0 < m" and "User.balance (user_at h A) < m"
    and "credit_card (user_at h A) = Some c" and "m \<le> CreditCard.balance (card_at h c)"
  shows "activity_log (user_at (snd (pay A B m d h)) u) =
     activity_log (user_at h u) @
       (if u = A
        then [''Paid '' @ name (user_at h B) @ '' $'' @ fmt2 m @ '' for '' @ d @ '' (credit card)'']
        else if u = B
        then [name (user_at h A) @ '' paid '' @ name (user_at h B) @ '' $'' @ fmt2 m @ '' for '' @ d]
        else [])"
  using assms by (simp add: pay_def upd_user_def upd_card_def log_append_def Let_def)

lemma set_render_feed:
  "set (render_feed app h) = (\<Union>u \<in> set (users app). set (activity_log (user_at h u)))"
  by (simp add: render_feed_eq_spec feed_spec_def set_first_occurrences)

lemma count_render_feed_mem:
  "count_list (render_feed app h) e = (if e \<in> set (render_feed app h) then 1 else 0)"
  unfolding render_feed_eq_spec feed_spec_def set_first_occurrences
  by (rule count_first_occurrences)

lemma distinct_render_feed: "distinct (render_feed app h)"
  by (simp add: render_feed_eq_spec feed_spec_def distinct_first_occurrences)

lemma length_render_feed: "length (render_feed app h) = card (set (render_feed app h))"
  using distinct_render_feed [of app h] by (simp add: distinct_card)

lemma set_snoc_if: "set (xs @ (if c then [x] else [])) = set xs \<union> (if c then {x} else {})"
  by (cases c) simp_all

lemma union_logs_one:
  assumes "A \<in> U"
  shows "(\<Union>u \<in> U. set (L u @ (if u = A \<or> u = B then [x] else [])))
     = insert x (\<Union>u \<in> U. set (L u))"
proof -
  have "(\<Union>u \<in> U. (if u = A \<or> u = B then {x} else {})) = {x}"
    using assms by (auto split: if_splits)
  then show ?thesis
    by (simp only: set_snoc_if UN_Un_distrib) simp
qed

lemma union_logs_two:
  assumes "A \<in> U" and "B \<in> U" and "B \<noteq> A"
  shows "(\<Union>u \<in> U. set (L u @ (if u = A then [x] else if u = B then [y] else [])))
     = insert x (insert y (\<Union>u \<in> U. set (L u)))"
proof -
  have e: "\<And>u. (if u = A then [x] else if u = B then [y] else [])
      = (if u = A then [x] else []) @ (if u = B then [y] else [])"
    using assms(3) by simp
  have a: "(\<Union>u \<in> U. (if u = A then {x} else {})) = {x}"
    using assms(1) by (auto split: if_splits)
  have b: "(\<Union>u \<in> U. (if u = B then {y} else {})) = {y}"
    using assms(2) by (auto split: if_splits)
  show ?thesis
    unfolding e append_assoc [symmetric] set_snoc_if UN_Un_distrib a b by auto
qed

lemma feed_after_cash:
  assumes "A \<in> set (users app)" and "B \<noteq> A" and "0 < m" and "m \<le> User.balance (user_at h A)"
  shows "set (render_feed app (snd (pay A B m d h))) =
     insert (name (user_at h A) @ '' paid '' @ name (user_at h B) @ '' $'' @ fmt2 m @ '' for '' @ d)
       (set (render_feed app h))"
  by (simp only: set_render_feed pay_cash_logs [OF assms(2,3,4)] union_logs_one [OF assms(1)])

lemma feed_after_credit:
  assumes "A \<in> set (users app)" and "B \<in> set (users app)"
    and "B \<noteq> A" and "0 < m" and "User.balance (user_at h A) < m"
    and "credit_card (user_at h A) = Some c" and "m \<le> CreditCard.balance (card_at h c)"
  shows "set (render_feed app (snd (pay A B m d h))) =
     insert (''Paid '' @ name (user_at h B) @ '' $'' @ fmt2 m @ '' for '' @ d @ '' (credit card)'')
       (insert (name (user_at h A) @ '' paid '' @ name (user_at h B) @ '' $'' @ fmt2 m @ '' for '' @ d)
          (set (render_feed app h)))"
  by (simp only: set_render_feed pay_credit_logs [OF assms(3,4,5,6,7)]
      union_logs_two [OF assms(1,2,3)])

lemma length_feed_cash:
  assumes "A \<in> set (users app)" and "B \<noteq> A" and "0 < m" and "m \<le> User.balance (user_at h A)"
    and "name (user_at h A) @ '' paid '' @ name (user_at h B) @ '' $'' @ fmt2 m @ '' for '' @ d
      \<notin> set (render_feed app h)"
  shows "length (render_feed app (snd (pay A B m d h))) = length (render_feed app h) + 1"
  using assms(5)
  by (simp add: length_render_feed feed_after_cash [OF assms(1,2,3,4)])

lemma length_feed_credit:
  assumes "A \<in> set (users app)" and "B \<in> set (users app)"
    and "B \<noteq> A" and "0 < m" and "User.balance (user_at h A) < m"
    and "credit_card (user_at h A) = Some c" and "m \<le> CreditCard.balance (card_at h c)"
    and "''Paid '' @ name (user_at h B) @ '' $'' @ fmt2 m @ '' for '' @ d @ '' (credit card)''
      \<notin> set (render_feed app h)"
    and "name (user_at h A) @ '' paid '' @ name (user_at h B) @ '' $'' @ fmt2 m @ '' for '' @ d
      \<notin> set (render_feed app h)"
  shows "length (render_feed app (snd (pay A B m d h))) = length (render_feed app h) + 2"
  using assms(8,9) card_entry_differs [of "name (user_at h B)" "fmt2 m" d "name (user_at h A)"]
  by (simp add: length_render_feed feed_after_credit [OF assms(1,2,3,4,5,6,7)])

text \<open>
  C6. The feed is the logs of the accounts one after the other, accounts in the order of
  creation and each log in its own order, every string kept where it occurs first and
  dropped where it occurs again. Hence, for payer and recipient both accounts of the
  application: a payment from the cash balance, which writes one and the same string
  into both logs, has that string in the feed exactly once; a payment from the credit
  card writes two different strings and each of them is in the feed exactly once. Where
  the strings were not in the feed before the payment, the feed grows by one entry in the
  first case and by two in the second.
\<close>

theorem render_feed_dedup:
  "render_feed app h = feed_spec app h
   \<and> (A \<in> set (users app) \<and> B \<in> set (users app) \<and> B \<noteq> A \<and> 0 < m
        \<and> m \<le> User.balance (user_at h A) \<longrightarrow>
      last (activity_log (user_at (snd (pay A B m d h)) A))
        = name (user_at h A) @ '' paid '' @ name (user_at h B) @ '' $'' @ fmt2 m @ '' for '' @ d
      \<and> last (activity_log (user_at (snd (pay A B m d h)) B))
        = name (user_at h A) @ '' paid '' @ name (user_at h B) @ '' $'' @ fmt2 m @ '' for '' @ d
      \<and> count_list (render_feed app (snd (pay A B m d h)))
          (name (user_at h A) @ '' paid '' @ name (user_at h B) @ '' $'' @ fmt2 m @ '' for '' @ d)
        = 1
      \<and> (name (user_at h A) @ '' paid '' @ name (user_at h B) @ '' $'' @ fmt2 m @ '' for '' @ d
            \<notin> set (render_feed app h) \<longrightarrow>
          length (render_feed app (snd (pay A B m d h))) = length (render_feed app h) + 1))
   \<and> (A \<in> set (users app) \<and> B \<in> set (users app) \<and> B \<noteq> A \<and> 0 < m
        \<and> User.balance (user_at h A) < m \<and> credit_card (user_at h A) = Some c
        \<and> m \<le> CreditCard.balance (card_at h c) \<longrightarrow>
      ''Paid '' @ name (user_at h B) @ '' $'' @ fmt2 m @ '' for '' @ d @ '' (credit card)''
        \<noteq> name (user_at h A) @ '' paid '' @ name (user_at h B) @ '' $'' @ fmt2 m @ '' for '' @ d
      \<and> count_list (render_feed app (snd (pay A B m d h)))
          (''Paid '' @ name (user_at h B) @ '' $'' @ fmt2 m @ '' for '' @ d @ '' (credit card)'')
        = 1
      \<and> count_list (render_feed app (snd (pay A B m d h)))
          (name (user_at h A) @ '' paid '' @ name (user_at h B) @ '' $'' @ fmt2 m @ '' for '' @ d)
        = 1
      \<and> (''Paid '' @ name (user_at h B) @ '' $'' @ fmt2 m @ '' for '' @ d @ '' (credit card)''
            \<notin> set (render_feed app h)
          \<and> name (user_at h A) @ '' paid '' @ name (user_at h B) @ '' $'' @ fmt2 m @ '' for '' @ d
            \<notin> set (render_feed app h) \<longrightarrow>
          length (render_feed app (snd (pay A B m d h))) = length (render_feed app h) + 2))"
proof (intro conjI impI)
  show "render_feed app h = feed_spec app h" by (rule render_feed_eq_spec)
next
  assume a: "A \<in> set (users app) \<and> B \<in> set (users app) \<and> B \<noteq> A \<and> 0 < m
        \<and> m \<le> User.balance (user_at h A)"
  then have ua: "A \<in> set (users app)" and ne: "B \<noteq> A" and pos: "0 < m"
    and cov: "m \<le> User.balance (user_at h A)"
    by simp_all
  note logs = pay_cash_logs [OF ne pos cov, of d]
  show "last (activity_log (user_at (snd (pay A B m d h)) A))
        = name (user_at h A) @ '' paid '' @ name (user_at h B) @ '' $'' @ fmt2 m @ '' for '' @ d"
    by (simp add: logs)
  show "last (activity_log (user_at (snd (pay A B m d h)) B))
        = name (user_at h A) @ '' paid '' @ name (user_at h B) @ '' $'' @ fmt2 m @ '' for '' @ d"
    by (simp add: logs)
  show "count_list (render_feed app (snd (pay A B m d h)))
          (name (user_at h A) @ '' paid '' @ name (user_at h B) @ '' $'' @ fmt2 m @ '' for '' @ d)
        = 1"
    by (simp add: count_render_feed_mem feed_after_cash [OF ua ne pos cov])
  assume "name (user_at h A) @ '' paid '' @ name (user_at h B) @ '' $'' @ fmt2 m @ '' for '' @ d
      \<notin> set (render_feed app h)"
  then show "length (render_feed app (snd (pay A B m d h))) = length (render_feed app h) + 1"
    by (rule length_feed_cash [OF ua ne pos cov])
next
  assume a: "A \<in> set (users app) \<and> B \<in> set (users app) \<and> B \<noteq> A \<and> 0 < m
        \<and> User.balance (user_at h A) < m \<and> credit_card (user_at h A) = Some c
        \<and> m \<le> CreditCard.balance (card_at h c)"
  then have ua: "A \<in> set (users app)" and ub: "B \<in> set (users app)" and ne: "B \<noteq> A"
    and pos: "0 < m" and low: "User.balance (user_at h A) < m"
    and cc: "credit_card (user_at h A) = Some c" and cov: "m \<le> CreditCard.balance (card_at h c)"
    by simp_all
  note feed = feed_after_credit [OF ua ub ne pos low cc cov, of d]
  show "''Paid '' @ name (user_at h B) @ '' $'' @ fmt2 m @ '' for '' @ d @ '' (credit card)''
        \<noteq> name (user_at h A) @ '' paid '' @ name (user_at h B) @ '' $'' @ fmt2 m @ '' for '' @ d"
    by (rule card_entry_differs)
  show "count_list (render_feed app (snd (pay A B m d h)))
          (''Paid '' @ name (user_at h B) @ '' $'' @ fmt2 m @ '' for '' @ d @ '' (credit card)'')
        = 1"
    by (simp only: count_render_feed_mem feed) simp
  show "count_list (render_feed app (snd (pay A B m d h)))
          (name (user_at h A) @ '' paid '' @ name (user_at h B) @ '' $'' @ fmt2 m @ '' for '' @ d)
        = 1"
    by (simp only: count_render_feed_mem feed) simp
  assume "''Paid '' @ name (user_at h B) @ '' $'' @ fmt2 m @ '' for '' @ d @ '' (credit card)''
            \<notin> set (render_feed app h)
          \<and> name (user_at h A) @ '' paid '' @ name (user_at h B) @ '' $'' @ fmt2 m @ '' for '' @ d
            \<notin> set (render_feed app h)"
  then show "length (render_feed app (snd (pay A B m d h))) = length (render_feed app h) + 2"
    using length_feed_credit [OF ua ub ne pos low cc cov, of d] by blast
qed

theorem render_feed_dedup_witness:
  "(0::ref) \<in> set (users test_app) \<and> (1::ref) \<in> set (users test_app) \<and> (1::ref) \<noteq> 0
   \<and> (0::rat) < 5 \<and> 5 \<le> User.balance (user_at (test_heap 50 100) 0)
   \<and> render_feed test_app (test_heap 50 100) = []
   \<and> count_list (render_feed test_app (snd (pay 0 1 5 ''Coffee'' (test_heap 50 100))))
        ''Alice paid Bob $5.00 for Coffee'' = 1
   \<and> render_feed test_app (snd (pay 0 1 5 ''Coffee'' (test_heap 50 100)))
        = [''Alice paid Bob $5.00 for Coffee'']
   \<and> (0::rat) < 20 \<and> User.balance (user_at (test_heap 5 100) 0) < 20
   \<and> credit_card (user_at (test_heap 5 100) 0) = Some 0
   \<and> 20 \<le> CreditCard.balance (card_at (test_heap 5 100) 0)
   \<and> render_feed test_app (test_heap 5 100) = []
   \<and> count_list (render_feed test_app (snd (pay 0 1 20 ''Lunch'' (test_heap 5 100))))
        ''Paid Bob $20.00 for Lunch (credit card)'' = 1
   \<and> count_list (render_feed test_app (snd (pay 0 1 20 ''Lunch'' (test_heap 5 100))))
        ''Alice paid Bob $20.00 for Lunch'' = 1
   \<and> render_feed test_app (snd (pay 0 1 20 ''Lunch'' (test_heap 5 100)))
        = [''Paid Bob $20.00 for Lunch (credit card)'', ''Alice paid Bob $20.00 for Lunch'']"
proof -
  have f5: "fmt2 5 = ''5.00''" and f20: "fmt2 20 = ''20.00''"
    by (simp_all add: fmt2_def round_half_even_def digit_char_def)
  have cash: "(0::ref) \<in> set (users test_app) \<and> (1::ref) \<in> set (users test_app) \<and> (1::ref) \<noteq> 0
      \<and> (0::rat) < 5 \<and> 5 \<le> User.balance (user_at (test_heap 50 100) 0)"
    by (simp add: test_app_def test_heap_def User_init_def)
  have credit: "(0::ref) \<in> set (users test_app) \<and> (1::ref) \<in> set (users test_app) \<and> (1::ref) \<noteq> 0
      \<and> (0::rat) < 20 \<and> User.balance (user_at (test_heap 5 100) 0) < 20
      \<and> credit_card (user_at (test_heap 5 100) 0) = Some 0
      \<and> 20 \<le> CreditCard.balance (card_at (test_heap 5 100) 0)"
    by (simp add: test_app_def test_heap_def User_init_def)
  have e0: "render_feed test_app (test_heap 50 100) = []"
    and e0': "render_feed test_app (test_heap 5 100) = []"
    by (simp_all add: render_feed_def retrieve_activity_def test_app_def test_heap_def
        User_init_def)
  note t1 = render_feed_dedup [of test_app "test_heap 50 100" 0 1 5 "''Coffee''" 0]
  note t2 = render_feed_dedup [of test_app "test_heap 5 100" 0 1 20 "''Lunch''" 0]
  from t1 cash have c1: "count_list (render_feed test_app (snd (pay 0 1 5 ''Coffee'' (test_heap 50 100))))
      (name (user_at (test_heap 50 100) 0) @ '' paid '' @ name (user_at (test_heap 50 100) 1) @
       '' $'' @ fmt2 5 @ '' for '' @ ''Coffee'') = 1"
    by blast
  from t2 credit have c2: "count_list (render_feed test_app (snd (pay 0 1 20 ''Lunch'' (test_heap 5 100))))
      (''Paid '' @ name (user_at (test_heap 5 100) 1) @ '' $'' @ fmt2 20 @ '' for '' @ ''Lunch'' @
       '' (credit card)'') = 1"
    and c3: "count_list (render_feed test_app (snd (pay 0 1 20 ''Lunch'' (test_heap 5 100))))
      (name (user_at (test_heap 5 100) 0) @ '' paid '' @ name (user_at (test_heap 5 100) 1) @
       '' $'' @ fmt2 20 @ '' for '' @ ''Lunch'') = 1"
    by blast+
  have e1: "render_feed test_app (snd (pay 0 1 5 ''Coffee'' (test_heap 50 100)))
        = [''Alice paid Bob $5.00 for Coffee'']"
    by (simp add: render_feed_def retrieve_activity_def test_app_def pay_def upd_user_def
        log_append_def Let_def test_heap_def User_init_def f5)
  have e2: "render_feed test_app (snd (pay 0 1 20 ''Lunch'' (test_heap 5 100)))
        = [''Paid Bob $20.00 for Lunch (credit card)'', ''Alice paid Bob $20.00 for Lunch'']"
    by (simp add: render_feed_def retrieve_activity_def test_app_def pay_def upd_user_def
        upd_card_def log_append_def Let_def test_heap_def User_init_def f20)
  from c1 have c1': "count_list (render_feed test_app (snd (pay 0 1 5 ''Coffee'' (test_heap 50 100))))
        ''Alice paid Bob $5.00 for Coffee'' = 1"
    by (simp add: test_heap_def User_init_def f5)
  from c2 have c2': "count_list (render_feed test_app (snd (pay 0 1 20 ''Lunch'' (test_heap 5 100))))
        ''Paid Bob $20.00 for Lunch (credit card)'' = 1"
    by (simp add: test_heap_def User_init_def f20)
  from c3 have c3': "count_list (render_feed test_app (snd (pay 0 1 20 ''Lunch'' (test_heap 5 100))))
        ''Alice paid Bob $20.00 for Lunch'' = 1"
    by (simp add: test_heap_def User_init_def f20)
  from cash credit c1' c2' c3' e0 e0' e1 e2 show ?thesis by blast
qed

section \<open>The friends relation along sequences of calls\<close>

lemma pay_friends [simp]: "friends (user_at (snd (pay a b m d h)) u) = friends (user_at h u)"
  by (simp add: pay_def upd_user_def upd_card_def log_append_def Let_def split: option.splits)

lemma pay_user_count [simp]: "user_count (snd (pay a b m d h)) = user_count h"
  by (simp add: pay_def upd_user_def upd_card_def log_append_def Let_def split: option.splits)

lemma charge_at_friends [simp]: "friends (user_at (snd (charge_at c m h)) u) = friends (user_at h u)"
  by (simp add: charge_at_def upd_card_def split: prod.splits)

lemma charge_at_user_count [simp]: "user_count (snd (charge_at c m h)) = user_count h"
  by (simp add: charge_at_def upd_card_def split: prod.splits)

lemma assign_friends [simp]: "friends (user_at (assign_credit_card a c h) u) = friends (user_at h u)"
  by (simp add: assign_credit_card_def upd_user_def)

lemma assign_user_count [simp]: "user_count (assign_credit_card a c h) = user_count h"
  by (simp add: assign_credit_card_def upd_user_def)

lemma new_card_friends [simp]: "friends (user_at (snd (new_card b h)) u) = friends (user_at h u)"
  by (simp add: new_card_def)

lemma new_card_user_count [simp]: "user_count (snd (new_card b h)) = user_count h"
  by (simp add: new_card_def)

lemma add_friend_user_count [simp]: "user_count (snd (add_friend a b h)) = user_count h"
  by (simp add: add_friend_def upd_user_def log_append_def Let_def)

lemma add_friend_friends:
  "friends (user_at (snd (add_friend a b h)) u) =
     (if b = a \<or> b \<in> set (friends (user_at h a)) then friends (user_at h u)
      else if u = a then friends (user_at h a) @ [b]
      else if u = b then friends (user_at h b) @ [a]
      else friends (user_at h u))"
  by (simp add: add_friend_def upd_user_def log_append_def Let_def)

lemma wf_friends_add_friend:
  assumes "wf_friends (app, h)" and "a < user_count h" and "b < user_count h"
  shows "wf_friends (app, snd (add_friend a b h))"
proof (cases "b = a \<or> b \<in> set (friends (user_at h a))")
  case True
  then have "snd (add_friend a b h) = h" by (auto simp: add_friend_def)
  with assms(1) show ?thesis by simp
next
  case False
  define h' where "h' = snd (add_friend a b h)"
  let ?F = "\<lambda>u. friends (user_at h u)"
  let ?G = "\<lambda>u. friends (user_at h' u)"
  let ?n = "user_count h"
  from False have ne: "b \<noteq> a" and nb: "b \<notin> set (?F a)" by auto
  have wf: "set (users app) = {..<?n} \<and>
      (\<forall>x<?n. (\<forall>y \<in> set (?F x). y < ?n \<and> x \<in> set (?F y))
          \<and> x \<notin> set (?F x) \<and> distinct (?F x))"
    using assms(1) unfolding wf_friends_def prod.case .
  note us = wf [THEN conjunct1] and al = wf [THEN conjunct2]
  have sym: "y < ?n \<and> x \<in> set (?F y)" if "x < ?n" and "y \<in> set (?F x)" for x y
    using al that by blast
  have irr: "x \<notin> set (?F x)" if "x < ?n" for x
    using al that by blast
  have dis: "distinct (?F x)" if "x < ?n" for x
    using al that by blast
  from sym [OF assms(3)] nb have na: "a \<notin> set (?F b)" by blast
  have ga: "?G a = ?F a @ [b]" and gb: "?G b = ?F b @ [a]"
    and go: "\<And>u. u \<noteq> a \<Longrightarrow> u \<noteq> b \<Longrightarrow> ?G u = ?F u"
    using ne nb by (simp_all add: h'_def add_friend_friends)
  have mono: "\<And>u. set (?F u) \<subseteq> set (?G u)"
  proof -
    fix u show "set (?F u) \<subseteq> set (?G u)"
      by (cases "u = a"; cases "u = b") (auto simp: ga gb go)
  qed
  have cnt: "user_count h' = ?n" by (simp add: h'_def)
  have main: "(\<forall>y \<in> set (?G x). y < ?n \<and> x \<in> set (?G y)) \<and> x \<notin> set (?G x) \<and> distinct (?G x)"
    if x: "x < ?n" for x
  proof -
    consider "x = a" | "x = b" "x \<noteq> a" | "x \<noteq> a" "x \<noteq> b" by blast
    then show ?thesis
    proof cases
      case 1
      have "\<forall>y \<in> set (?F a). y < ?n \<and> a \<in> set (?G y)"
        using sym [OF assms(2)] mono by blast
      moreover have "b < ?n \<and> a \<in> set (?G b)" using assms(3) by (simp add: gb)
      ultimately show ?thesis
        using irr [OF assms(2)] dis [OF assms(2)] ne nb by (simp add: 1 ga)
    next
      case 2
      have "\<forall>y \<in> set (?F b). y < ?n \<and> b \<in> set (?G y)"
        using sym [OF assms(3)] mono by blast
      moreover have "a < ?n \<and> b \<in> set (?G a)" using assms(2) by (simp add: ga)
      ultimately show ?thesis
        using irr [OF assms(3)] dis [OF assms(3)] ne na by (simp add: 2 gb)
    next
      case 3
      have "\<forall>y \<in> set (?F x). y < ?n \<and> x \<in> set (?G y)"
        using sym [OF x] mono by blast
      then show ?thesis
        using irr [OF x] dis [OF x] by (simp add: go [OF 3])
    qed
  qed
  have "set (users app) = {..<user_count h'} \<and>
      (\<forall>x<user_count h'. (\<forall>y \<in> set (?G x). y < user_count h' \<and> x \<in> set (?G y))
          \<and> x \<notin> set (?G x) \<and> distinct (?G x))"
    unfolding cnt using us main by blast
  then show ?thesis
    unfolding wf_friends_def prod.case h'_def .
qed

lemma wf_friends_create_user:
  assumes "wf_friends (app, h)" and "create_user app n b h = (r, app', h')"
  shows "wf_friends (app', h')"
proof -
  let ?F = "\<lambda>u. friends (user_at h u)"
  let ?G = "\<lambda>u. friends (user_at h' u)"
  let ?n = "user_count h"
  from assms(2) have app': "users app' = users app @ [?n]"
    and cnt: "user_count h' = Suc ?n"
    and gn: "?G ?n = []"
    and go: "\<And>u. u \<noteq> ?n \<Longrightarrow> ?G u = ?F u"
    by (auto simp: create_user_def new_user_def User_init_def)
  have wf: "set (users app) = {..<?n} \<and>
      (\<forall>x<?n. (\<forall>y \<in> set (?F x). y < ?n \<and> x \<in> set (?F y))
          \<and> x \<notin> set (?F x) \<and> distinct (?F x))"
    using assms(1) unfolding wf_friends_def prod.case .
  note us = wf [THEN conjunct1] and al = wf [THEN conjunct2]
  have sym: "y < ?n \<and> x \<in> set (?F y)" if "x < ?n" and "y \<in> set (?F x)" for x y
    using al that by blast
  have irr: "x \<notin> set (?F x)" if "x < ?n" for x
    using al that by blast
  have dis: "distinct (?F x)" if "x < ?n" for x
    using al that by blast
  have us': "set (users app') = {..<Suc ?n}"
    by (simp add: app' us lessThan_Suc)
  have main: "(\<forall>y \<in> set (?G x). y < Suc ?n \<and> x \<in> set (?G y)) \<and> x \<notin> set (?G x) \<and> distinct (?G x)"
    if x: "x < Suc ?n" for x
  proof (cases "x = ?n")
    case True
    then show ?thesis by (simp add: gn)
  next
    case False
    with x have xl: "x < ?n" by simp
    have "\<forall>y \<in> set (?F x). y < Suc ?n \<and> x \<in> set (?G y)"
    proof
      fix y assume y: "y \<in> set (?F x)"
      from sym [OF xl y] have "y < ?n" and "x \<in> set (?F y)" by simp_all
      then show "y < Suc ?n \<and> x \<in> set (?G y)" by (simp add: go)
    qed
    then show ?thesis
      using irr [OF xl] dis [OF xl] by (simp add: go [OF False])
  qed
  have "set (users app') = {..<user_count h'} \<and>
      (\<forall>x<user_count h'. (\<forall>y \<in> set (?G x). y < user_count h' \<and> x \<in> set (?G y))
          \<and> x \<notin> set (?G x) \<and> distinct (?G x))"
    unfolding cnt using us' main by blast
  then show ?thesis
    unfolding wf_friends_def prod.case .
qed

lemma wf_friends_same:
  assumes "wf_friends (app, h)" and "user_count h' = user_count h"
    and "\<And>u. friends (user_at h' u) = friends (user_at h u)"
  shows "wf_friends (app, h')"
  using assms(1) unfolding wf_friends_def prod.case assms(2) assms(3) .

lemma wf_friends_step:
  assumes "wf_friends w" and "step c w = Some w'"
  shows "wf_friends w'"
proof -
  obtain app h where w: "w = (app, h)" by (cases w)
  note wf = assms(1) [unfolded w]
  note st = assms(2) [unfolded w]
  show ?thesis
  proof (cases c)
    case (CreateUser n b)
    obtain r app' h' where cu: "create_user app n b h = (r, app', h')"
      by (cases "create_user app n b h")
    with st CreateUser have "w' = (app', h')" by simp
    with wf_friends_create_user [OF wf cu] show ?thesis by simp
  next
    case (NewCreditCard b)
    with st have "w' = (app, snd (new_card b h))" by simp
    with wf show ?thesis by (simp add: wf_friends_same)
  next
    case (AssignCreditCard a c)
    with st have "w' = (app, assign_credit_card a c h)" by (simp split: if_splits)
    with wf show ?thesis by (simp add: wf_friends_same)
  next
    case (AddFriend a b)
    with st have "w' = (app, snd (add_friend a b h))" and "a < user_count h" and "b < user_count h"
      by (simp_all split: if_splits)
    with wf show ?thesis by (simp add: wf_friends_add_friend)
  next
    case (Pay a b m d)
    with st have "w' = (app, snd (pay a b m d h))" by (simp split: if_splits)
    with wf show ?thesis by (simp add: wf_friends_same)
  next
    case (Charge c m)
    with st have "w' = (app, snd (charge_at c m h))" by (simp split: if_splits)
    with wf show ?thesis by (simp add: wf_friends_same)
  next
    case (RetrieveActivity a)
    with st have "w' = (app, h)" by (simp split: if_splits)
    with wf show ?thesis by simp
  next
    case RenderFeed
    with st have "w' = (app, h)" by simp
    with wf show ?thesis by simp
  qed
qed

lemma wf_friends_run: "wf_friends w \<Longrightarrow> run cs w = Some w' \<Longrightarrow> wf_friends w'"
proof (induction cs arbitrary: w)
  case Nil
  then show ?case by simp
next
  case (Cons c cs)
  from Cons.prems(2) obtain w1 where s1: "step c w = Some w1" and r1: "run cs w1 = Some w'"
    by (cases "step c w") simp_all
  from wf_friends_step [OF Cons.prems(1) s1] r1 show ?case by (rule Cons.IH)
qed

lemma wf_friends_init: "wf_friends (MiniVenmo_init, empty_heap)"
  by (simp add: wf_friends_def MiniVenmo_init_def empty_heap_def)

text \<open>
  C7. In every state reached from a fresh application by a sequence of calls of the
  public operations, the friends relation over the accounts of the application is
  symmetric (\<open>A\<close> is a friend of \<open>B\<close> exactly when \<open>B\<close> is a friend of \<open>A\<close>), irreflexive
  (no account is its own friend) and free of duplicates (no account is listed twice
  among the friends of another).
\<close>

theorem friends_invariant:
  assumes "run cs (MiniVenmo_init, empty_heap) = Some (app, h)"
  shows "friends_symmetric app h \<and> friends_irreflexive app h \<and> friends_duplicate_free app h"
proof -
  have "wf_friends (app, h)"
    using wf_friends_init assms by (rule wf_friends_run)
  then have wf: "set (users app) = {..<user_count h} \<and>
      (\<forall>x<user_count h.
         (\<forall>y \<in> set (friends (user_at h x)).
            y < user_count h \<and> x \<in> set (friends (user_at h y)))
         \<and> x \<notin> set (friends (user_at h x)) \<and> distinct (friends (user_at h x)))"
    unfolding wf_friends_def prod.case .
  have us: "a < user_count h" if "a \<in> set (users app)" for a
    using wf that by blast
  have sym: "x \<in> set (friends (user_at h y))"
    if "x < user_count h" and "y \<in> set (friends (user_at h x))" for x y
    using wf that by blast
  have irr: "x \<notin> set (friends (user_at h x))" if "x < user_count h" for x
    using wf that by blast
  have dis: "distinct (friends (user_at h x))" if "x < user_count h" for x
    using wf that by blast
  have "friends_symmetric app h"
    unfolding friends_symmetric_def using us sym by blast
  moreover have "friends_irreflexive app h"
    unfolding friends_irreflexive_def using us irr by blast
  moreover have "friends_duplicate_free app h"
    unfolding friends_duplicate_free_def using us dis by blast
  ultimately show ?thesis by simp
qed

theorem friends_invariant_witness:
  "run demo (MiniVenmo_init, empty_heap) \<noteq> None
   \<and> users (fst (the (run demo (MiniVenmo_init, empty_heap)))) = [0, 1, 2]
   \<and> map (\<lambda>u. friends (user_at (snd (the (run demo (MiniVenmo_init, empty_heap)))) u))
        (users (fst (the (run demo (MiniVenmo_init, empty_heap))))) = [[1], [0, 2], [1]]
   \<and> friends_symmetric (fst (the (run demo (MiniVenmo_init, empty_heap))))
        (snd (the (run demo (MiniVenmo_init, empty_heap))))
   \<and> friends_irreflexive (fst (the (run demo (MiniVenmo_init, empty_heap))))
        (snd (the (run demo (MiniVenmo_init, empty_heap))))
   \<and> friends_duplicate_free (fst (the (run demo (MiniVenmo_init, empty_heap))))
        (snd (the (run demo (MiniVenmo_init, empty_heap))))"
proof -
  have ne: "run demo (MiniVenmo_init, empty_heap) \<noteq> None"
    by (simp add: demo_def MiniVenmo_init_def empty_heap_def create_user_def new_user_def
        new_card_def assign_credit_card_def upd_user_def)
  have us: "users (fst (the (run demo (MiniVenmo_init, empty_heap)))) = [0, 1, 2]"
    by (simp add: demo_def MiniVenmo_init_def empty_heap_def create_user_def new_user_def
        new_card_def assign_credit_card_def upd_user_def)
  have fr: "map (\<lambda>u. friends (user_at (snd (the (run demo (MiniVenmo_init, empty_heap)))) u))
        (users (fst (the (run demo (MiniVenmo_init, empty_heap))))) = [[1], [0, 2], [1]]"
    by (simp add: demo_def MiniVenmo_init_def empty_heap_def create_user_def new_user_def
        new_card_def assign_credit_card_def upd_user_def upd_card_def add_friend_def pay_def
        log_append_def Let_def User_init_def)
  from ne obtain app h where r: "run demo (MiniVenmo_init, empty_heap) = Some (app, h)"
    by (cases "run demo (MiniVenmo_init, empty_heap)") auto
  from friends_invariant [OF r] r
  have "friends_symmetric (fst (the (run demo (MiniVenmo_init, empty_heap))))
        (snd (the (run demo (MiniVenmo_init, empty_heap))))
     \<and> friends_irreflexive (fst (the (run demo (MiniVenmo_init, empty_heap))))
        (snd (the (run demo (MiniVenmo_init, empty_heap))))
     \<and> friends_duplicate_free (fst (the (run demo (MiniVenmo_init, empty_heap))))
        (snd (the (run demo (MiniVenmo_init, empty_heap))))"
    by simp
  with ne us fr show ?thesis by blast
qed






end
